theory Spec2Isabelle
  imports Main "HOL-Library.Sublist"
begin

section \<open>The syntax tree (the fragment of go/ast that gen.go inspects and builds)\<close>

text \<open>
  The generator works on the tree that go/parser returns. The model keeps the node kinds
  that gen.go tests for or constructs (\<open>GenDecl\<close>, \<open>FuncDecl\<close>, \<open>ValueSpec\<close>,
  \<open>TypeSpec\<close>, \<open>Field\<close>, \<open>Ident\<close>, \<open>ArrayType\<close>, \<open>CompositeLit\<close>, \<open>CallExpr\<close>,
  \<open>SelectorExpr\<close>, \<open>BasicLit\<close>, \<open>ReturnStmt\<close>) and the constructs through which a
  declaration can be nested inside another one (\<open>StarExpr\<close>, \<open>FuncLit\<close>, \<open>ExprStmt\<close>,
  \<open>DeclStmt\<close>, \<open>BlockStmt\<close>). Identifiers that only name something are strings;
  positions and free-floating comments are left out. As in the trees the parser builds,
  a \<open>DeclStmt\<close> holds a \<open>GenDecl\<close>, so a \<open>FuncDecl\<close> occurs at top level only.
\<close>

datatype tok = IMPORT_tok | CONST_tok | TYPE_tok | VAR_tok

datatype expr =
    Ident string
  | StarExpr expr
  | ArrayType expr
  | CompositeLit expr "expr list"
  | SelectorExpr expr string
  | CallExpr expr "expr list"
  | BasicLit string
  | FuncLit "stmt list"
and stmt =
    ReturnStmt "expr list"
  | ExprStmt expr
  | DeclStmt gen_decl
  | BlockStmt "stmt list"
and spec =
    ImportSpec string
  | ValueSpec "string list" "expr option" "expr list"
  | TypeSpec string expr
and gen_decl =
    GenDecl tok "string list option" "spec list"

text \<open>
  \<open>ValueSpec names type values\<close> is one line of a \<open>const\<close> or \<open>var\<close> declaration; the
  type is \<open>None\<close> when the line has no type annotation. \<open>GenDecl tok doc specs\<close> carries
  the lines of its documentation comment (\<open>None\<close> when \<open>Doc\<close> is nil).
\<close>

datatype field = Field (field_names: "string list") (field_type: expr)

datatype func_type = FuncType (params: "field list") (results: "field list option")

datatype decl =
    GenD gen_decl
  | FuncDecl (Recv: "field list option") (Name: string) (Type: func_type)
      (Body: "stmt list option")
  | BadDecl

record ast_file =
  PkgName :: string
  Decls :: "decl list"

section \<open>ast.Inspect: pre-order traversal with a visitor\<close>

text \<open>
  The nodes a visitor is called with. Both visitors of gen.go return true at every
  node, so the traversal never prunes; the variable the closure captures is threaded
  through as the state \<open>'s\<close>. Children are visited in the order of ast.Walk. The
  nodes that only group or name (comment groups, field lists, the signature node, the
  identifiers that name a declaration) are not visited separately: no visitor of gen.go
  tells them apart from any other node it ignores.
\<close>

datatype node =
    FileNode ast_file
  | DeclNode decl
  | SpecNode spec
  | FieldNode field
  | ExprNode expr
  | StmtNode stmt

fun walk_expr :: "(node \<Rightarrow> 's \<Rightarrow> 's) \<Rightarrow> expr \<Rightarrow> 's \<Rightarrow> 's"
  and walk_exprs :: "(node \<Rightarrow> 's \<Rightarrow> 's) \<Rightarrow> expr list \<Rightarrow> 's \<Rightarrow> 's"
  and walk_stmt :: "(node \<Rightarrow> 's \<Rightarrow> 's) \<Rightarrow> stmt \<Rightarrow> 's \<Rightarrow> 's"
  and walk_stmts :: "(node \<Rightarrow> 's \<Rightarrow> 's) \<Rightarrow> stmt list \<Rightarrow> 's \<Rightarrow> 's"
  and walk_spec :: "(node \<Rightarrow> 's \<Rightarrow> 's) \<Rightarrow> spec \<Rightarrow> 's \<Rightarrow> 's"
  and walk_specs :: "(node \<Rightarrow> 's \<Rightarrow> 's) \<Rightarrow> spec list \<Rightarrow> 's \<Rightarrow> 's"
  and walk_gen_decl :: "(node \<Rightarrow> 's \<Rightarrow> 's) \<Rightarrow> gen_decl \<Rightarrow> 's \<Rightarrow> 's"
where
  "walk_expr f (Ident x) s = f (ExprNode (Ident x)) s"
| "walk_expr f (StarExpr e) s = walk_expr f e (f (ExprNode (StarExpr e)) s)"
| "walk_expr f (ArrayType e) s = walk_expr f e (f (ExprNode (ArrayType e)) s)"
| "walk_expr f (CompositeLit t es) s =
     walk_exprs f es (walk_expr f t (f (ExprNode (CompositeLit t es)) s))"
| "walk_expr f (SelectorExpr e x) s = walk_expr f e (f (ExprNode (SelectorExpr e x)) s)"
| "walk_expr f (CallExpr e es) s =
     walk_exprs f es (walk_expr f e (f (ExprNode (CallExpr e es)) s))"
| "walk_expr f (BasicLit v) s = f (ExprNode (BasicLit v)) s"
| "walk_expr f (FuncLit b) s =
     walk_stmts f b (f (StmtNode (BlockStmt b)) (f (ExprNode (FuncLit b)) s))"
| "walk_exprs f [] s = s"
| "walk_exprs f (e # es) s = walk_exprs f es (walk_expr f e s)"
| "walk_stmt f (ReturnStmt es) s = walk_exprs f es (f (StmtNode (ReturnStmt es)) s)"
| "walk_stmt f (ExprStmt e) s = walk_expr f e (f (StmtNode (ExprStmt e)) s)"
| "walk_stmt f (DeclStmt g) s = walk_gen_decl f g (f (StmtNode (DeclStmt g)) s)"
| "walk_stmt f (BlockStmt b) s = walk_stmts f b (f (StmtNode (BlockStmt b)) s)"
| "walk_stmts f [] s = s"
| "walk_stmts f (x # xs) s = walk_stmts f xs (walk_stmt f x s)"
| "walk_spec f (ImportSpec p) s = f (SpecNode (ImportSpec p)) s"
| "walk_spec f (ValueSpec ns t vs) s =
     walk_exprs f vs
       ((case t of None \<Rightarrow> (\<lambda>s. s) | Some e \<Rightarrow> walk_expr f e)
          (f (SpecNode (ValueSpec ns t vs)) s))"
| "walk_spec f (TypeSpec n t) s = walk_expr f t (f (SpecNode (TypeSpec n t)) s)"
| "walk_specs f [] s = s"
| "walk_specs f (x # xs) s = walk_specs f xs (walk_spec f x s)"
| "walk_gen_decl f (GenDecl k doc specs) s =
     walk_specs f specs (f (DeclNode (GenD (GenDecl k doc specs))) s)"

fun walk_field :: "(node \<Rightarrow> 's \<Rightarrow> 's) \<Rightarrow> field \<Rightarrow> 's \<Rightarrow> 's" where
  "walk_field f (Field ns t) s = walk_expr f t (f (FieldNode (Field ns t)) s)"

fun walk_fields :: "(node \<Rightarrow> 's \<Rightarrow> 's) \<Rightarrow> field list \<Rightarrow> 's \<Rightarrow> 's" where
  "walk_fields f [] s = s"
| "walk_fields f (x # xs) s = walk_fields f xs (walk_field f x s)"

fun walk_field_list :: "(node \<Rightarrow> 's \<Rightarrow> 's) \<Rightarrow> field list option \<Rightarrow> 's \<Rightarrow> 's" where
  "walk_field_list f None s = s"
| "walk_field_list f (Some fs) s = walk_fields f fs s"

fun walk_body :: "(node \<Rightarrow> 's \<Rightarrow> 's) \<Rightarrow> stmt list option \<Rightarrow> 's \<Rightarrow> 's" where
  "walk_body f None s = s"
| "walk_body f (Some b) s = walk_stmt f (BlockStmt b) s"

text \<open>
  A function declaration is visited before its receiver, its signature and its body
  (the order of ast.Walk: Recv, Name, Type, Body).
\<close>

fun walk_decl :: "(node \<Rightarrow> 's \<Rightarrow> 's) \<Rightarrow> decl \<Rightarrow> 's \<Rightarrow> 's" where
  "walk_decl f (GenD g) s = walk_gen_decl f g s"
| "walk_decl f (FuncDecl recv name ty body) s =
     walk_body f body
       (walk_field_list f (results ty)
         (walk_fields f (params ty)
           (walk_field_list f recv (f (DeclNode (FuncDecl recv name ty body)) s))))"
| "walk_decl f BadDecl s = f (DeclNode BadDecl) s"

fun walk_decls :: "(node \<Rightarrow> 's \<Rightarrow> 's) \<Rightarrow> decl list \<Rightarrow> 's \<Rightarrow> 's" where
  "walk_decls f [] s = s"
| "walk_decls f (d # ds) s = walk_decls f ds (walk_decl f d s)"

definition Inspect :: "ast_file \<Rightarrow> (node \<Rightarrow> 's \<Rightarrow> 's) \<Rightarrow> 's \<Rightarrow> 's" where
  "Inspect file f s = walk_decls f (Decls file) (f (FileNode file) s)"

section \<open>The functions of gen.go\<close>

subsection \<open>collectEnumValues\<close>

text \<open>
  The closure passed to ast.Inspect: at a \<open>ValueSpec\<close> with at least one name whose
  \<open>Type\<close> is an identifier equal to \<open>enumType\<close>, every name is appended to \<open>values\<close>.
  The type assertion \<open>valueSpec.Type.(*ast.Ident)\<close> fails on a nil \<open>Type\<close> and on any
  other expression.
\<close>

fun valuesVisitor :: "string \<Rightarrow> node \<Rightarrow> string list \<Rightarrow> string list" where
  "valuesVisitor enumType (SpecNode (ValueSpec names ty vals)) values =
     (if length names = 0 then values
      else (case ty of
              Some (Ident name) \<Rightarrow> if name = enumType then values @ names else values
            | _ \<Rightarrow> values))"
| "valuesVisitor enumType n values = values"

definition collectEnumValues :: "ast_file \<Rightarrow> string \<Rightarrow> string list" where
  "collectEnumValues file enumType = Inspect file (valuesVisitor enumType) []"

subsection \<open>checkExistingMethods\<close>

fun methodsVisitor :: "string \<Rightarrow> node \<Rightarrow> bool \<times> bool \<Rightarrow> bool \<times> bool" where
  "methodsVisitor enumType (DeclNode (FuncDecl recv name ty body)) (hasValuesMethod, hasStringMethod) =
     (case recv of
        None \<Rightarrow> (hasValuesMethod, hasStringMethod)
      | Some [] \<Rightarrow> (hasValuesMethod, hasStringMethod)
      | Some (r # rs) \<Rightarrow>
          (case field_type r of
             Ident rname \<Rightarrow>
               if rname = enumType then
                 (if name = ''Values'' then (True, hasStringMethod)
                  else if name = ''String'' then (hasValuesMethod, True)
                  else (hasValuesMethod, hasStringMethod))
               else (hasValuesMethod, hasStringMethod)
           | _ \<Rightarrow> (hasValuesMethod, hasStringMethod)))"
| "methodsVisitor enumType n st = st"

definition checkExistingMethods :: "ast_file \<Rightarrow> string \<Rightarrow> bool \<times> bool" where
  "checkExistingMethods file enumType = Inspect file (methodsVisitor enumType) (False, False)"

subsection \<open>replaceMethod\<close>

text \<open>
  The test of the replacement loop: a function declaration with a non-empty receiver
  list whose first receiver type is the identifier \<open>enumType\<close> and whose name is
  \<open>methodName\<close>.
\<close>

fun isMethod :: "string \<Rightarrow> string \<Rightarrow> decl \<Rightarrow> bool" where
  "isMethod enumType methodName (FuncDecl (Some (r # rs)) name ty body) =
     (case field_type r of
        Ident rname \<Rightarrow> rname = enumType \<and> name = methodName
      | _ \<Rightarrow> False)"
| "isMethod enumType methodName d = False"

text \<open>The loop over \<open>file.Decls\<close>: the first matching slot is overwritten, then return.\<close>

fun replaceDecls :: "decl list \<Rightarrow> string \<Rightarrow> string \<Rightarrow> decl \<Rightarrow> decl list" where
  "replaceDecls [] enumType methodName newMethod = []"
| "replaceDecls (d # ds) enumType methodName newMethod =
     (if isMethod enumType methodName d then newMethod # ds
      else d # replaceDecls ds enumType methodName newMethod)"

definition replaceMethod :: "ast_file \<Rightarrow> string \<Rightarrow> string \<Rightarrow> decl \<Rightarrow> ast_file" where
  "replaceMethod file enumType methodName newMethod =
     file\<lparr>Decls := replaceDecls (Decls file) enumType methodName newMethod\<rparr>"

subsection \<open>generateValuesMethodAST and generateStringMethodAST\<close>

definition generateValuesMethodAST :: "string \<Rightarrow> string list \<Rightarrow> decl" where
  "generateValuesMethodAST enumType values =
     FuncDecl (Some [Field [''g''] (Ident enumType)]) ''Values''
       (FuncType [] (Some [Field [] (ArrayType (Ident enumType))]))
       (Some [ReturnStmt [CompositeLit (ArrayType (Ident enumType)) (map Ident values)]])"

definition generateStringMethodAST :: "string \<Rightarrow> decl" where
  "generateStringMethodAST enumType =
     FuncDecl (Some [Field [''g''] (Ident enumType)]) ''String''
       (FuncType [] (Some [Field [] (Ident ''string'')]))
       (Some [ReturnStmt [CallExpr (SelectorExpr (Ident ''fmt'') ''Sprintf'')
          [BasicLit (CHR 0x22 # ''%v'' @ [CHR 0x22]), Ident ''g'']]])"

subsection \<open>Generate\<close>

text \<open>\<open>strings.Contains\<close>.\<close>

fun Contains :: "string \<Rightarrow> string \<Rightarrow> bool" where
  "Contains [] substr = (substr = [])"
| "Contains (c # s) substr = (prefix substr (c # s) \<or> Contains s substr)"

text \<open>The \<open>%v\<close> rendering of a slice of strings: the elements between brackets.\<close>

fun joinSpace :: "string list \<Rightarrow> string" where
  "joinSpace [] = []"
| "joinSpace [v] = v"
| "joinSpace (v # vs) = v @ '' '' @ joinSpace vs"

definition sprintValues :: "string list \<Rightarrow> string" where
  "sprintValues values = ''['' @ joinSpace values @ '']''"

text \<open>
  The variables the loops of \<open>Generate\<close> update: the parsed file (whose \<open>Decls\<close> slots
  \<open>replaceMethod\<close> overwrites), the slice \<open>newDecls\<close>, and the lines printed so far.
\<close>

record gen_state =
  astFile :: ast_file
  newDecls :: "decl list"
  printed :: "string list"

definition println :: "string \<Rightarrow> gen_state \<Rightarrow> gen_state" where
  "println msg st = st\<lparr>printed := printed st @ [msg]\<rparr>"

text \<open>
  Lines 52 to 58 and 60 to 66, which differ in the method only: an existing method is
  replaced in \<open>file.Decls\<close>, a missing one is appended to \<open>newDecls\<close>.
  \<open>replaceMethod\<close> returns nothing, so its caller goes on in either case.
\<close>

definition mergeMethod :: "bool \<Rightarrow> string \<Rightarrow> string \<Rightarrow> decl \<Rightarrow> gen_state \<Rightarrow> gen_state" where
  "mergeMethod hasMethod enumType methodName newMethod st =
     (if hasMethod then
        (let st1 = println (''Replacing existing '' @ methodName @ '' method for type '' @ enumType) st
         in st1\<lparr>astFile := replaceMethod (astFile st1) enumType methodName newMethod\<rparr>)
      else st\<lparr>newDecls := newDecls st @ [newMethod]\<rparr>)"

text \<open>Lines 38 to 66: what is done for one \<open>TypeSpec\<close> of a marked declaration.\<close>

definition enumTypeStep :: "string \<Rightarrow> gen_state \<Rightarrow> gen_state" where
  "enumTypeStep enumType st0 =
     (let st1 = println (''Found enum type: '' @ enumType) st0;
          values = collectEnumValues (astFile st1) enumType;
          st2 = println (''Enum values: '' @ sprintValues values) st1;
          (hasValuesMethod, hasStringMethod) = checkExistingMethods (astFile st2) enumType;
          valuesMethod = generateValuesMethodAST enumType values;
          stringMethod = generateStringMethodAST enumType;
          st3 = mergeMethod hasValuesMethod enumType ''Values'' valuesMethod st2;
          st4 = mergeMethod hasStringMethod enumType ''String'' stringMethod st3
      in st4)"

text \<open>Lines 35 to 68: the loop over \<open>genDecl.Specs\<close>.\<close>

fun specsLoop :: "spec list \<Rightarrow> gen_state \<Rightarrow> gen_state" where
  "specsLoop [] st = st"
| "specsLoop (TypeSpec name ty # specs) st = specsLoop specs (enumTypeStep name st)"
| "specsLoop (sp # specs) st = specsLoop specs st"

text \<open>Lines 33 to 70: the loop over the lines of the documentation comment.\<close>

fun commentsLoop :: "string list \<Rightarrow> spec list \<Rightarrow> gen_state \<Rightarrow> gen_state" where
  "commentsLoop [] specs st = st"
| "commentsLoop (comment # comments) specs st =
     commentsLoop comments specs
       (if Contains comment ''@enumGenerated'' then specsLoop specs st else st)"

text \<open>Lines 27 to 70: the body of the loop over \<open>file.Decls\<close>, for the declaration read.\<close>

fun declStep :: "decl \<Rightarrow> gen_state \<Rightarrow> gen_state" where
  "declStep (GenD (GenDecl k (Some doc) specs)) st =
     commentsLoop doc specs (st\<lparr>newDecls := newDecls st @ [GenD (GenDecl k (Some doc) specs)]\<rparr>)"
| "declStep decl st = st\<lparr>newDecls := newDecls st @ [decl]\<rparr>"

text \<open>
  Lines 26 to 71: \<open>for _, decl := range file.Decls\<close>. The range expression is
  evaluated once, so the number \<open>n\<close> of iterations is fixed at entry, but each element
  is read from the shared backing array when its iteration starts: a slot that
  \<open>replaceMethod\<close> has overwritten in the meantime is read with its new content.
\<close>

function declsLoop :: "nat \<Rightarrow> nat \<Rightarrow> gen_state \<Rightarrow> gen_state" where
  "declsLoop n i st =
     (if i < n
      then declsLoop n (Suc i) (declStep (Decls (astFile st) ! i) st)
      else st)"
  by pat_completeness auto
termination
  by (relation "measure (\<lambda>(n, i, st). n - i)") auto

text \<open>Lines 23 to 74: the declarations of the file that is written back.\<close>

definition initState :: "ast_file \<Rightarrow> gen_state" where
  "initState file = \<lparr>astFile = file, newDecls = [], printed = []\<rparr>"

definition mergeState :: "ast_file \<Rightarrow> gen_state" where
  "mergeState file = declsLoop (length (Decls file)) 0 (initState file)"

definition generated :: "ast_file \<Rightarrow> ast_file" where
  "generated file = (astFile (mergeState file))\<lparr>Decls := newDecls (mergeState file)\<rparr>"

text \<open>
  The world \<open>Generate\<close> acts on: the content of each path and the lines on standard
  output. The library calls are parameters: \<open>parseSrc\<close> is go/parser on a source text
  (an error text or a tree), \<open>printFile\<close> is go/printer (an error text or the rendered
  source), \<open>createErr\<close> is the error of \<open>os.Create\<close> on a path, if any.
\<close>

record world =
  disk :: "string \<Rightarrow> string option"
  stdout :: "string list"

record env =
  parseSrc :: "string \<Rightarrow> string + ast_file"
  printFile :: "ast_file \<Rightarrow> string + string"
  createErr :: "string \<Rightarrow> string option"

definition ParseFile :: "env \<Rightarrow> world \<Rightarrow> string \<Rightarrow> string + ast_file" where
  "ParseFile e w filename =
     (case disk w filename of
        None \<Rightarrow> Inl (''open '' @ filename @ '': no such file or directory'')
      | Some src \<Rightarrow> parseSrc e src)"

definition say :: "string \<Rightarrow> world \<Rightarrow> world" where
  "say msg w = w\<lparr>stdout := stdout w @ [msg]\<rparr>"

text \<open>
  \<open>os.Create\<close> truncates the file; \<open>printer.Fprint\<close> then writes the rendered tree.
  When rendering fails the file is left as \<open>os.Create\<close> left it.
\<close>

definition Generate :: "env \<Rightarrow> string \<Rightarrow> world \<Rightarrow> world" where
  "Generate e filename w =
     (case ParseFile e w filename of
        Inl err \<Rightarrow> say (''Error parsing file: '' @ err) w
      | Inr file \<Rightarrow>
          (let w1 = w\<lparr>stdout := stdout w @ printed (mergeState file)\<rparr>
           in case createErr e filename of
                Some err \<Rightarrow> say (''Error creating file: '' @ err) w1
              | None \<Rightarrow>
                (let w2 = w1\<lparr>disk := (disk w1)(filename \<mapsto> [])\<rparr>
                 in case printFile e (generated file) of
                      Inl err \<Rightarrow> say (''Error writing file: '' @ err) w2
                    | Inr text \<Rightarrow>
                        say ''Code generation completed successfully!''
                          (w2\<lparr>disk := (disk w2)(filename \<mapsto> text)\<rparr>))))"

section \<open>The tree in pre-order, as a list of nodes\<close>

text \<open>
  The specification speaks of the names met in a pre-order traversal of the whole tree.
  \<open>preorder\<close> lists the nodes of a file in that order, independently of any visitor:
  a node first, then its children from left to right.
\<close>

fun nodes_expr :: "expr \<Rightarrow> node list"
  and nodes_exprs :: "expr list \<Rightarrow> node list"
  and nodes_stmt :: "stmt \<Rightarrow> node list"
  and nodes_stmts :: "stmt list \<Rightarrow> node list"
  and nodes_spec :: "spec \<Rightarrow> node list"
  and nodes_specs :: "spec list \<Rightarrow> node list"
  and nodes_gen_decl :: "gen_decl \<Rightarrow> node list"
where
  "nodes_expr (Ident x) = [ExprNode (Ident x)]"
| "nodes_expr (StarExpr e) = ExprNode (StarExpr e) # nodes_expr e"
| "nodes_expr (ArrayType e) = ExprNode (ArrayType e) # nodes_expr e"
| "nodes_expr (CompositeLit t es) =
     ExprNode (CompositeLit t es) # nodes_expr t @ nodes_exprs es"
| "nodes_expr (SelectorExpr e x) = ExprNode (SelectorExpr e x) # nodes_expr e"
| "nodes_expr (CallExpr e es) = ExprNode (CallExpr e es) # nodes_expr e @ nodes_exprs es"
| "nodes_expr (BasicLit v) = [ExprNode (BasicLit v)]"
| "nodes_expr (FuncLit b) = ExprNode (FuncLit b) # StmtNode (BlockStmt b) # nodes_stmts b"
| "nodes_exprs [] = []"
| "nodes_exprs (e # es) = nodes_expr e @ nodes_exprs es"
| "nodes_stmt (ReturnStmt es) = StmtNode (ReturnStmt es) # nodes_exprs es"
| "nodes_stmt (ExprStmt e) = StmtNode (ExprStmt e) # nodes_expr e"
| "nodes_stmt (DeclStmt g) = StmtNode (DeclStmt g) # nodes_gen_decl g"
| "nodes_stmt (BlockStmt b) = StmtNode (BlockStmt b) # nodes_stmts b"
| "nodes_stmts [] = []"
| "nodes_stmts (x # xs) = nodes_stmt x @ nodes_stmts xs"
| "nodes_spec (ImportSpec p) = [SpecNode (ImportSpec p)]"
| "nodes_spec (ValueSpec ns t vs) =
     SpecNode (ValueSpec ns t vs) #
       (case t of None \<Rightarrow> [] | Some e \<Rightarrow> nodes_expr e) @ nodes_exprs vs"
| "nodes_spec (TypeSpec n t) = SpecNode (TypeSpec n t) # nodes_expr t"
| "nodes_specs [] = []"
| "nodes_specs (x # xs) = nodes_spec x @ nodes_specs xs"
| "nodes_gen_decl (GenDecl k doc specs) =
     DeclNode (GenD (GenDecl k doc specs)) # nodes_specs specs"

fun nodes_field :: "field \<Rightarrow> node list" where
  "nodes_field (Field ns t) = FieldNode (Field ns t) # nodes_expr t"

definition nodes_fields :: "field list \<Rightarrow> node list" where
  "nodes_fields fs = concat (map nodes_field fs)"

fun nodes_decl :: "decl \<Rightarrow> node list" where
  "nodes_decl (GenD g) = nodes_gen_decl g"
| "nodes_decl (FuncDecl recv name ty body) =
     DeclNode (FuncDecl recv name ty body) #
       (case recv of None \<Rightarrow> [] | Some fs \<Rightarrow> nodes_fields fs) @
       nodes_fields (params ty) @
       (case results ty of None \<Rightarrow> [] | Some fs \<Rightarrow> nodes_fields fs) @
       (case body of None \<Rightarrow> [] | Some b \<Rightarrow> nodes_stmt (BlockStmt b))"
| "nodes_decl BadDecl = [DeclNode BadDecl]"

definition preorder :: "ast_file \<Rightarrow> node list" where
  "preorder file = FileNode file # concat (map nodes_decl (Decls file))"

text \<open>
  What the collector takes at a node, written without a visitor: the names of a value
  specification whose type is the identifier \<open>T\<close>, be it a line of a \<open>const\<close> or of a
  \<open>var\<close> declaration. \<open>namesInOrder\<close> lists them over the nodes in pre-order.
\<close>

fun namesAt :: "string \<Rightarrow> node \<Rightarrow> string list" where
  "namesAt T (SpecNode (ValueSpec names (Some (Ident t)) vals)) =
     (if t = T then names else [])"
| "namesAt T n = []"

definition namesInOrder :: "ast_file \<Rightarrow> string \<Rightarrow> string list" where
  "namesInOrder file T = concat (map (namesAt T) (preorder file))"

section \<open>The value set of the specification\<close>

text \<open>
  The specification's value set of \<open>T\<close> holds the names of the constant declarations
  whose declared type is textually \<open>T\<close>, in pre-order. Whether a declaration line
  declares constants is told by the keyword of the declaration that holds it, so this
  traversal carries that keyword down to the line. \<open>kindNames P T\<close> lists, in pre-order
  (a line before what is nested in its type and values), the names of the lines typed
  \<open>T\<close> that stand in a declaration whose keyword satisfies \<open>P\<close>.
\<close>

fun kindNames_expr :: "(tok \<Rightarrow> bool) \<Rightarrow> string \<Rightarrow> expr \<Rightarrow> string list"
  and kindNames_exprs :: "(tok \<Rightarrow> bool) \<Rightarrow> string \<Rightarrow> expr list \<Rightarrow> string list"
  and kindNames_stmt :: "(tok \<Rightarrow> bool) \<Rightarrow> string \<Rightarrow> stmt \<Rightarrow> string list"
  and kindNames_stmts :: "(tok \<Rightarrow> bool) \<Rightarrow> string \<Rightarrow> stmt list \<Rightarrow> string list"
  and kindNames_spec :: "(tok \<Rightarrow> bool) \<Rightarrow> string \<Rightarrow> tok \<Rightarrow> spec \<Rightarrow> string list"
  and kindNames_specs :: "(tok \<Rightarrow> bool) \<Rightarrow> string \<Rightarrow> tok \<Rightarrow> spec list \<Rightarrow> string list"
  and kindNames_gen_decl :: "(tok \<Rightarrow> bool) \<Rightarrow> string \<Rightarrow> gen_decl \<Rightarrow> string list"
where
  "kindNames_expr P T (Ident x) = []"
| "kindNames_expr P T (StarExpr e) = kindNames_expr P T e"
| "kindNames_expr P T (ArrayType e) = kindNames_expr P T e"
| "kindNames_expr P T (CompositeLit t es) = kindNames_expr P T t @ kindNames_exprs P T es"
| "kindNames_expr P T (SelectorExpr e x) = kindNames_expr P T e"
| "kindNames_expr P T (CallExpr e es) = kindNames_expr P T e @ kindNames_exprs P T es"
| "kindNames_expr P T (BasicLit v) = []"
| "kindNames_expr P T (FuncLit b) = kindNames_stmts P T b"
| "kindNames_exprs P T [] = []"
| "kindNames_exprs P T (e # es) = kindNames_expr P T e @ kindNames_exprs P T es"
| "kindNames_stmt P T (ReturnStmt es) = kindNames_exprs P T es"
| "kindNames_stmt P T (ExprStmt e) = kindNames_expr P T e"
| "kindNames_stmt P T (DeclStmt g) = kindNames_gen_decl P T g"
| "kindNames_stmt P T (BlockStmt b) = kindNames_stmts P T b"
| "kindNames_stmts P T [] = []"
| "kindNames_stmts P T (x # xs) = kindNames_stmt P T x @ kindNames_stmts P T xs"
| "kindNames_spec P T k (ImportSpec p) = []"
| "kindNames_spec P T k (ValueSpec ns t vs) =
     (if P k \<and> t = Some (Ident T) then ns else []) @
     (case t of None \<Rightarrow> [] | Some e \<Rightarrow> kindNames_expr P T e) @ kindNames_exprs P T vs"
| "kindNames_spec P T k (TypeSpec n t) = kindNames_expr P T t"
| "kindNames_specs P T k [] = []"
| "kindNames_specs P T k (x # xs) = kindNames_spec P T k x @ kindNames_specs P T k xs"
| "kindNames_gen_decl P T (GenDecl k doc specs) = kindNames_specs P T k specs"

fun kindNames_fields :: "(tok \<Rightarrow> bool) \<Rightarrow> string \<Rightarrow> field list \<Rightarrow> string list" where
  "kindNames_fields P T [] = []"
| "kindNames_fields P T (Field ns t # fs) = kindNames_expr P T t @ kindNames_fields P T fs"

fun kindNames_decl :: "(tok \<Rightarrow> bool) \<Rightarrow> string \<Rightarrow> decl \<Rightarrow> string list" where
  "kindNames_decl P T (GenD g) = kindNames_gen_decl P T g"
| "kindNames_decl P T (FuncDecl recv name ty body) =
     (case recv of None \<Rightarrow> [] | Some fs \<Rightarrow> kindNames_fields P T fs) @
     kindNames_fields P T (params ty) @
     (case results ty of None \<Rightarrow> [] | Some fs \<Rightarrow> kindNames_fields P T fs) @
     (case body of None \<Rightarrow> [] | Some b \<Rightarrow> kindNames_stmts P T b)"
| "kindNames_decl P T BadDecl = []"

text \<open>The value set: the names of the constants of type \<open>T\<close>, in pre-order.\<close>

definition constantSet :: "ast_file \<Rightarrow> string \<Rightarrow> string list" where
  "constantSet file T = concat (map (kindNames_decl (\<lambda>k. k = CONST_tok) T) (Decls file))"

text \<open>The names typed \<open>T\<close> that are declared otherwise, by a \<open>var\<close> declaration.\<close>

definition otherSet :: "ast_file \<Rightarrow> string \<Rightarrow> string list" where
  "otherSet file T = concat (map (kindNames_decl (\<lambda>k. k \<noteq> CONST_tok) T) (Decls file))"

section \<open>Example files\<close>

definition marker :: string where
  "marker = ''// @enumGenerated''"

definition typeDecl :: "string list \<Rightarrow> string \<Rightarrow> decl" where
  "typeDecl doc T = GenD (GenDecl TYPE_tok (Some doc) [TypeSpec T (Ident ''int'')])"

definition valueDecl :: "tok \<Rightarrow> string list \<Rightarrow> string \<Rightarrow> decl" where
  "valueDecl k names T = GenD (GenDecl k None [ValueSpec names (Some (Ident T)) [BasicLit ''1'']])"

definition methodDecl :: "expr \<Rightarrow> string \<Rightarrow> stmt list \<Rightarrow> decl" where
  "methodDecl recvType name body =
     FuncDecl (Some [Field [''t''] recvType]) name
       (FuncType [] (Some [Field [] (ArrayType (Ident ''T''))])) (Some body)"

definition goFile :: "decl list \<Rightarrow> ast_file" where
  "goFile ds = \<lparr>PkgName = ''p'', Decls = ds\<rparr>"

text \<open>
  \<^verbatim>\<open>// @enumGenerated
type T int
var x T = 1\<close>
\<close>

definition varFile :: ast_file where
  "varFile = goFile [typeDecl [marker] ''T'', valueDecl VAR_tok [''x''] ''T'']"

text \<open>
  \<^verbatim>\<open>// @enumGenerated
type T int
const (
	A T = iota
	B
	C
)\<close>
\<close>

definition iotaFile :: ast_file where
  "iotaFile = goFile [typeDecl [marker] ''T'',
     GenD (GenDecl CONST_tok None
       [ValueSpec [''A''] (Some (Ident ''T'')) [Ident ''iota''],
        ValueSpec [''B''] None [],
        ValueSpec [''C''] None []])]"

text \<open>
  \<^verbatim>\<open>// @enumGenerated
type T int
const a T = 1
const (
	b T = 2
	a T = 3
)\<close>
\<close>

definition twoGroupsFile :: ast_file where
  "twoGroupsFile = goFile [typeDecl [marker] ''T'', valueDecl CONST_tok [''a''] ''T'',
     GenD (GenDecl CONST_tok None
       [ValueSpec [''b''] (Some (Ident ''T'')) [BasicLit ''2''],
        ValueSpec [''a''] (Some (Ident ''T'')) [BasicLit ''3'']])]"

text \<open>
  \<^verbatim>\<open>// @enumGenerated
type T int
const a, b T = 1\<close>
\<close>

definition typeThenConstFile :: ast_file where
  "typeThenConstFile = goFile [typeDecl [marker] ''T'', valueDecl CONST_tok [''a'', ''b''] ''T'']"

text \<open>
  \<^verbatim>\<open>// @enumGenerated
// see the @enumGenerated generator
type T int
const a T = 1\<close>
\<close>

definition twoMarkersFile :: ast_file where
  "twoMarkersFile = goFile [typeDecl [marker, ''// see the @enumGenerated generator''] ''T'',
     valueDecl CONST_tok [''a''] ''T'']"

text \<open>
  \<^verbatim>\<open>func (t T) Values() []T { return nil }
// @enumGenerated
type T int
const a T = 1\<close>
\<close>

definition oldValuesMethod :: decl where
  "oldValuesMethod = methodDecl (Ident ''T'') ''Values'' [ReturnStmt [Ident ''nil'']]"

definition methodFirstFile :: ast_file where
  "methodFirstFile = goFile [oldValuesMethod, typeDecl [marker] ''T'', valueDecl CONST_tok [''a''] ''T'']"

text \<open>
  \<^verbatim>\<open>// @enumGenerated
type T int
const a T = 1
func (t *T) Values() []T { return nil }\<close>
\<close>

definition pointerValuesMethod :: decl where
  "pointerValuesMethod = methodDecl (StarExpr (Ident ''T'')) ''Values'' [ReturnStmt [Ident ''nil'']]"

definition pointerFile :: ast_file where
  "pointerFile = goFile [typeDecl [marker] ''T'', valueDecl CONST_tok [''a''] ''T'', pointerValuesMethod]"

text \<open>
  \<^verbatim>\<open>// @enumGenerated
type T int
func (t T) Values() []T {
	const a T = 1
	return []T{a}
}\<close>
\<close>

definition localConstMethod :: decl where
  "localConstMethod = methodDecl (Ident ''T'') ''Values''
     [DeclStmt (GenDecl CONST_tok None [ValueSpec [''a''] (Some (Ident ''T'')) [BasicLit ''1'']]),
      ReturnStmt [CompositeLit (ArrayType (Ident ''T'')) [Ident ''a'']]]"

definition localConstFile :: ast_file where
  "localConstFile = goFile [typeDecl [marker] ''T'', localConstMethod]"


text \<open>
  \<^verbatim>\<open>// @enumGenerated
type T int
const a T = 1
var x T = 2
const b T = 3\<close>
\<close>

definition mixedFile :: ast_file where
  "mixedFile = goFile [typeDecl [marker] ''T'', valueDecl CONST_tok [''a''] ''T'',
     valueDecl VAR_tok [''x''] ''T'', valueDecl CONST_tok [''b''] ''T'']"

text \<open>A parser that rejects every source text, a printer that fails, an \<open>os.Create\<close> that succeeds.\<close>

definition rejectingEnv :: env where
  "rejectingEnv = \<lparr>parseSrc = (\<lambda>src. Inl ''1:1: expected package''),
     printFile = (\<lambda>f. Inl ''unsupported''), createErr = (\<lambda>p. None)\<rparr>"

definition oneFileWorld :: world where
  "oneFileWorld = \<lparr>disk = (\<lambda>p. if p = ''enum.go'' then Some ''pakage p'' else None), stdout = []\<rparr>"

section \<open>Notions used in the statements\<close>

text \<open>
  The receiver type and the name of a method as detection and replacement see them:
  defined for a function declaration whose first receiver has an identifier as its type.
\<close>

fun methodKey :: "decl \<Rightarrow> (string \<times> string) option" where
  "methodKey (FuncDecl (Some (r # rs)) name ty body) =
     (case field_type r of Ident rname \<Rightarrow> Some (rname, name) | _ \<Rightarrow> None)"
| "methodKey d = None"

text \<open>
  \<open>sameSlot d d'\<close>: the declaration \<open>d'\<close> stands where \<open>d\<close> stood. It is \<open>d\<close> itself, or
  a method with the receiver type and the name of the method \<open>d\<close>.
\<close>

definition sameSlot :: "decl \<Rightarrow> decl \<Rightarrow> bool" where
  "sameSlot d d' = (d' = d \<or> (methodKey d \<noteq> None \<and> methodKey d' = methodKey d))"

text \<open>The type names of the \<open>TypeSpec\<close>s of a declaration, in order.\<close>

fun typeNames :: "spec list \<Rightarrow> string list" where
  "typeNames [] = []"
| "typeNames (TypeSpec name ty # specs) = name # typeNames specs"
| "typeNames (sp # specs) = typeNames specs"

text \<open>
  The type names for which a declaration is processed, in order: once for each line of
  its documentation that contains the marker and each of its \<open>TypeSpec\<close>s.
\<close>

fun markedTypes :: "decl \<Rightarrow> string list" where
  "markedTypes (GenD (GenDecl k (Some doc) specs)) =
     concat (map (\<lambda>comment. if Contains comment ''@enumGenerated'' then typeNames specs else []) doc)"
| "markedTypes d = []"

section \<open>Traversal lemmas\<close>

lemma walk_is_fold:
  "walk_expr f e s = fold f (nodes_expr e) s"
  "walk_exprs f es s = fold f (nodes_exprs es) s"
  "walk_stmt f x s = fold f (nodes_stmt x) s"
  "walk_stmts f xs s = fold f (nodes_stmts xs) s"
  "walk_spec f sp s = fold f (nodes_spec sp) s"
  "walk_specs f sps s = fold f (nodes_specs sps) s"
  "walk_gen_decl f g s = fold f (nodes_gen_decl g) s"
  by (induction f e s and f es s and f x s and f xs s and f sp s and f sps s and f g s
      rule: walk_expr_walk_exprs_walk_stmt_walk_stmts_walk_spec_walk_specs_walk_gen_decl.induct)
     (simp_all split: option.splits)

lemma walk_fields_is_fold: "walk_fields f fs s = fold f (nodes_fields fs) s"
proof (induction fs arbitrary: s)
  case Nil
  show ?case by (simp add: nodes_fields_def)
next
  case (Cons a fs)
  obtain ns t where a: "a = Field ns t" by (cases a)
  from Cons show ?case by (simp add: a nodes_fields_def walk_is_fold)
qed

lemma walk_decl_is_fold: "walk_decl f d s = fold f (nodes_decl d) s"
proof (cases d)
  case (GenD g)
  then show ?thesis by (simp add: walk_is_fold)
next
  case (FuncDecl recv name ty body)
  have r: "\<And>fl s. walk_field_list f fl s =
      fold f (case fl of None \<Rightarrow> [] | Some fs \<Rightarrow> nodes_fields fs) s"
    by (simp add: walk_fields_is_fold split: option.splits)
  have b: "\<And>s. walk_body f body s =
      fold f (case body of None \<Rightarrow> [] | Some b \<Rightarrow> nodes_stmt (BlockStmt b)) s"
    by (cases body) (simp_all add: walk_is_fold)
  show ?thesis
    unfolding FuncDecl walk_decl.simps nodes_decl.simps r b walk_fields_is_fold
    by simp
next
  case BadDecl
  then show ?thesis by simp
qed

lemma walk_decls_is_fold: "walk_decls f ds s = fold f (concat (map nodes_decl ds)) s"
  by (induction ds arbitrary: s) (simp_all add: walk_decl_is_fold)

lemma Inspect_is_fold: "Inspect file f s = fold f (preorder file) s"
  by (simp add: Inspect_def preorder_def walk_decls_is_fold)

lemma valuesVisitor_append:
  "valuesVisitor T n values = values @ namesAt T n"
proof (cases n)
  case (SpecNode sp)
  show ?thesis
  proof (cases sp)
    case (ValueSpec names ty vals)
    show ?thesis
    proof (cases ty)
      case None
      then show ?thesis by (simp add: SpecNode ValueSpec)
    next
      case (Some e)
      then show ?thesis by (cases e) (auto simp: SpecNode ValueSpec)
    qed
  qed (simp_all add: SpecNode)
qed simp_all

lemma fold_valuesVisitor:
  "fold (valuesVisitor T) ns acc = acc @ concat (map (namesAt T) ns)"
  by (induction ns arbitrary: acc) (simp_all add: valuesVisitor_append)

lemma collectEnumValues_namesInOrder: "collectEnumValues file T = namesInOrder file T"
  by (simp add: collectEnumValues_def namesInOrder_def Inspect_is_fold fold_valuesVisitor)

section \<open>Value collection\<close>

text \<open>
  The synthesized method returns the collected names as they are: in the order of the
  traversal, nothing sorted, no duplicate removed.
\<close>

lemma values_method_returns_collected_names:
  "generateValuesMethodAST T (collectEnumValues file T) =
     FuncDecl (Some [Field [''g''] (Ident T)]) ''Values''
       (FuncType [] (Some [Field [] (ArrayType (Ident T))]))
       (Some [ReturnStmt [CompositeLit (ArrayType (Ident T)) (map Ident (namesInOrder file T))]])"
  by (simp add: generateValuesMethodAST_def collectEnumValues_namesInOrder)

lemma namesAt_ValueSpec:
  "namesAt T (SpecNode (ValueSpec ns t vs)) = (if t = Some (Ident T) then ns else [])"
proof (cases t)
  case None
  then show ?thesis by simp
next
  case (Some e)
  then show ?thesis by (cases e) auto
qed

lemma namesAt_kindNames:
  "concat (map (namesAt T) (nodes_expr e)) = kindNames_expr (\<lambda>k. True) T e"
  "concat (map (namesAt T) (nodes_exprs es)) = kindNames_exprs (\<lambda>k. True) T es"
  "concat (map (namesAt T) (nodes_stmt x)) = kindNames_stmt (\<lambda>k. True) T x"
  "concat (map (namesAt T) (nodes_stmts xs)) = kindNames_stmts (\<lambda>k. True) T xs"
  "concat (map (namesAt T) (nodes_spec sp)) = kindNames_spec (\<lambda>k. True) T k sp"
  "concat (map (namesAt T) (nodes_specs sps)) = kindNames_specs (\<lambda>k. True) T k sps"
  "concat (map (namesAt T) (nodes_gen_decl g)) = kindNames_gen_decl (\<lambda>k. True) T g"
  by (induction "\<lambda>k::tok. True" T e and "\<lambda>k::tok. True" T es and "\<lambda>k::tok. True" T x
        and "\<lambda>k::tok. True" T xs and "\<lambda>k::tok. True" T k sp and "\<lambda>k::tok. True" T k sps
        and "\<lambda>k::tok. True" T g
      rule: kindNames_expr_kindNames_exprs_kindNames_stmt_kindNames_stmts_kindNames_spec_kindNames_specs_kindNames_gen_decl.induct)
     (simp_all add: namesAt_ValueSpec split: option.splits)

lemma kindNames_split:
  "kindNames_expr (\<lambda>k. \<not> P k) T e = [] \<Longrightarrow>
     kindNames_expr (\<lambda>k. True) T e = kindNames_expr P T e"
  "kindNames_exprs (\<lambda>k. \<not> P k) T es = [] \<Longrightarrow>
     kindNames_exprs (\<lambda>k. True) T es = kindNames_exprs P T es"
  "kindNames_stmt (\<lambda>k. \<not> P k) T x = [] \<Longrightarrow>
     kindNames_stmt (\<lambda>k. True) T x = kindNames_stmt P T x"
  "kindNames_stmts (\<lambda>k. \<not> P k) T xs = [] \<Longrightarrow>
     kindNames_stmts (\<lambda>k. True) T xs = kindNames_stmts P T xs"
  "kindNames_spec (\<lambda>k. \<not> P k) T k sp = [] \<Longrightarrow>
     kindNames_spec (\<lambda>k. True) T k sp = kindNames_spec P T k sp"
  "kindNames_specs (\<lambda>k. \<not> P k) T k sps = [] \<Longrightarrow>
     kindNames_specs (\<lambda>k. True) T k sps = kindNames_specs P T k sps"
  "kindNames_gen_decl (\<lambda>k. \<not> P k) T g = [] \<Longrightarrow>
     kindNames_gen_decl (\<lambda>k. True) T g = kindNames_gen_decl P T g"
  by (induction P T e and P T es and P T x and P T xs and P T k sp and P T k sps and P T g
      rule: kindNames_expr_kindNames_exprs_kindNames_stmt_kindNames_stmts_kindNames_spec_kindNames_specs_kindNames_gen_decl.induct)
     (auto split: option.splits if_splits)

lemma namesAt_fields:
  "concat (map (namesAt T) (nodes_fields fs)) = kindNames_fields (\<lambda>k. True) T fs"
proof (induction fs)
  case Nil
  show ?case by (simp add: nodes_fields_def)
next
  case (Cons f fs)
  obtain ns t where f: "f = Field ns t" by (cases f)
  from Cons show ?case by (simp add: f nodes_fields_def namesAt_kindNames)
qed

lemma kindNames_fields_split:
  "kindNames_fields (\<lambda>k. \<not> P k) T fs = [] \<Longrightarrow>
     kindNames_fields (\<lambda>k. True) T fs = kindNames_fields P T fs"
  by (induction P T fs rule: kindNames_fields.induct) (simp_all add: kindNames_split)

lemma namesAt_decl:
  "concat (map (namesAt T) (nodes_decl d)) = kindNames_decl (\<lambda>k. True) T d"
  by (cases d) (simp_all add: namesAt_kindNames namesAt_fields split: option.splits)

lemma kindNames_decl_split:
  "kindNames_decl (\<lambda>k. \<not> P k) T d = [] \<Longrightarrow>
     kindNames_decl (\<lambda>k. True) T d = kindNames_decl P T d"
  by (cases d) (auto simp: kindNames_split kindNames_fields_split split: option.splits)

lemma namesInOrder_decls:
  "namesInOrder file T = concat (map (kindNames_decl (\<lambda>k. True) T) (Decls file))"
proof -
  have "concat (map (namesAt T) (concat (map nodes_decl ds))) =
      concat (map (kindNames_decl (\<lambda>k. True) T) ds)" for ds
    by (induction ds) (simp_all add: namesAt_decl)
  then show ?thesis by (simp add: namesInOrder_def preorder_def)
qed

text \<open>
  Where no name of type \<open>T\<close> is declared by anything but a constant declaration, the
  synthesized method returns exactly the value set, in its order.
\<close>

lemma values_method_returns_value_set:
  assumes "otherSet file T = []"
  shows "collectEnumValues file T = constantSet file T"
proof -
  have "concat (map (kindNames_decl (\<lambda>k. True) T) ds) =
      concat (map (kindNames_decl (\<lambda>k. k = CONST_tok) T) ds)"
    if "concat (map (kindNames_decl (\<lambda>k. k \<noteq> CONST_tok) T) ds) = []" for ds
    using that
  proof (induction ds)
    case Nil
    show ?case by simp
  next
    case (Cons d ds)
    then have "kindNames_decl (\<lambda>k. \<not> k = CONST_tok) T d = []" by simp
    then have "kindNames_decl (\<lambda>k. True) T d = kindNames_decl (\<lambda>k. k = CONST_tok) T d"
      by (rule kindNames_decl_split)
    with Cons show ?case by simp
  qed
  with assms show ?thesis
    by (simp add: collectEnumValues_namesInOrder namesInOrder_decls constantSet_def otherSet_def)
qed

lemma two_groups_value_set:
  "otherSet twoGroupsFile ''T'' = [] \<and> constantSet twoGroupsFile ''T'' = [''a'', ''b'', ''a''] \<and>
   collectEnumValues twoGroupsFile ''T'' = [''a'', ''b'', ''a'']"
  by code_simp

text \<open>
  C5 (the code differs). The constants of type \<open>T\<close> met in pre-order in \<open>mixedFile\<close> are
  \<open>a, b\<close>, but the synthesized \<open>Values\<close> method returns \<open>[a, x, b]\<close>: the names keep
  the order of the traversal, and the variable \<open>x\<close> stands among them.
\<close>

theorem values_method_returns_variable_among_constants:
  "constantSet mixedFile ''T'' = [''a'', ''b''] \<and>
   generateValuesMethodAST ''T'' (collectEnumValues mixedFile ''T'') =
     FuncDecl (Some [Field [''g''] (Ident ''T'')]) ''Values''
       (FuncType [] (Some [Field [] (ArrayType (Ident ''T''))]))
       (Some [ReturnStmt [CompositeLit (ArrayType (Ident ''T''))
          [Ident ''a'', Ident ''x'', Ident ''b'']]])"
  by code_simp

text \<open>
  C7 (the code differs). The collector tests the node kind \<open>ValueSpec\<close> only, which is
  the line of a \<open>var\<close> declaration as well as of a \<open>const\<close> declaration, and never looks at
  the keyword of the enclosing declaration: on \<open>varFile\<close> the variable \<open>x\<close> is collected
  and returned by the synthesized \<open>Values\<close> method.
\<close>

theorem var_declaration_is_collected:
  "collectEnumValues varFile ''T'' = [''x''] \<and>
   Decls (generated varFile) =
     [typeDecl [marker] ''T'', generateValuesMethodAST ''T'' [''x''],
      generateStringMethodAST ''T'', valueDecl VAR_tok [''x''] ''T'']"
  by code_simp

text \<open>
  C10. A value specification without a type annotation never contributes: the visitor
  leaves the collected names unchanged at such a node, and every collected name is a
  declared name of some value specification of the tree whose type is the identifier
  \<open>T\<close>.
\<close>

theorem untyped_names_never_collected:
  "valuesVisitor T (SpecNode (ValueSpec names None vals)) acc = acc \<and>
   (x \<in> set (collectEnumValues file T) \<longrightarrow>
      (\<exists>names vals. SpecNode (ValueSpec names (Some (Ident T)) vals) \<in> set (preorder file)
         \<and> x \<in> set names))"
proof
  show "valuesVisitor T (SpecNode (ValueSpec names None vals)) acc = acc"
    by simp
next
  have "\<exists>names vals. n = SpecNode (ValueSpec names (Some (Ident T)) vals) \<and> x \<in> set names"
    if "x \<in> set (namesAt T n)" for n
    using that by (induction T n rule: namesAt.induct) (simp_all split: if_splits)
  then show "x \<in> set (collectEnumValues file T) \<longrightarrow>
      (\<exists>names vals. SpecNode (ValueSpec names (Some (Ident T)) vals) \<in> set (preorder file)
         \<and> x \<in> set names)"
    unfolding collectEnumValues_namesInOrder namesInOrder_def by fastforce
qed

theorem untyped_names_never_collected_witness:
  "collectEnumValues iotaFile ''T'' = [''A''] \<and>
   (\<exists>names vals. SpecNode (ValueSpec names (Some (Ident ''T'')) vals) \<in> set (preorder iotaFile)
         \<and> ''A'' \<in> set names)"
proof -
  have c: "collectEnumValues iotaFile ''T'' = [''A'']"
    by code_simp
  then have "''A'' \<in> set (collectEnumValues iotaFile ''T'')" by simp
  with untyped_names_never_collected [of "''T''" "[]" "[]" "[]" "''A''" iotaFile] c
  show ?thesis by blast
qed

section \<open>Failure to parse\<close>

text \<open>
  C8. When the file does not parse, \<open>Generate\<close> prints the error and returns: every
  path keeps its content (nothing is created, truncated or written) and the only
  effect is the line \<open>Error parsing file: ...\<close> on standard output.
\<close>

theorem parse_error_leaves_file_untouched:
  assumes "ParseFile e w filename = Inl err"
  shows "Generate e filename w = w\<lparr>stdout := stdout w @ [''Error parsing file: '' @ err]\<rparr>
     \<and> disk (Generate e filename w) = disk w"
  using assms by (simp add: Generate_def say_def)

theorem parse_error_leaves_file_untouched_witness:
  "ParseFile rejectingEnv oneFileWorld ''enum.go'' = Inl ''1:1: expected package'' \<and>
   disk (Generate rejectingEnv ''enum.go'' oneFileWorld) ''enum.go'' = Some ''pakage p'' \<and>
   stdout (Generate rejectingEnv ''enum.go'' oneFileWorld) =
     [''Error parsing file: 1:1: expected package'']"
proof -
  have p: "ParseFile rejectingEnv oneFileWorld ''enum.go'' = Inl ''1:1: expected package''"
    by (simp add: ParseFile_def rejectingEnv_def oneFileWorld_def)
  from parse_error_leaves_file_untouched [OF p] p show ?thesis
    by (simp add: oneFileWorld_def)
qed

section \<open>Detection and replacement\<close>

lemma isMethod_methodKey: "isMethod T M d \<longleftrightarrow> methodKey d = Some (T, M)"
  by (induction T M d rule: isMethod.induct) (auto split: expr.splits)

lemma no_FuncDecl_inside:
  "DeclNode (FuncDecl r nm ty b) \<notin> set (nodes_expr e)"
  "DeclNode (FuncDecl r nm ty b) \<notin> set (nodes_exprs es)"
  "DeclNode (FuncDecl r nm ty b) \<notin> set (nodes_stmt x)"
  "DeclNode (FuncDecl r nm ty b) \<notin> set (nodes_stmts xs)"
  "DeclNode (FuncDecl r nm ty b) \<notin> set (nodes_spec sp)"
  "DeclNode (FuncDecl r nm ty b) \<notin> set (nodes_specs sps)"
  "DeclNode (FuncDecl r nm ty b) \<notin> set (nodes_gen_decl g)"
  by (induction e and es and x and xs and sp and sps and g
      rule: nodes_expr_nodes_exprs_nodes_stmt_nodes_stmts_nodes_spec_nodes_specs_nodes_gen_decl.induct)
     (simp_all split: option.splits)

lemma no_FuncDecl_in_fields:
  "DeclNode (FuncDecl r nm ty b) \<notin> set (nodes_fields fs)"
proof (induction fs)
  case Nil
  show ?case by (simp add: nodes_fields_def)
next
  case (Cons a fs)
  obtain ns t where a: "a = Field ns t" by (cases a)
  from Cons show ?case by (simp add: a nodes_fields_def no_FuncDecl_inside)
qed

lemma methodsVisitor_other:
  assumes "\<forall>r nm ty b. n \<noteq> DeclNode (FuncDecl r nm ty b)"
  shows "methodsVisitor T n s = s"
proof (cases n)
  case (DeclNode d)
  with assms show ?thesis by (cases d; cases s) simp_all
qed (cases s; simp)+

lemma fold_methodsVisitor_other:
  "\<forall>r nm ty b. DeclNode (FuncDecl r nm ty b) \<notin> set ns \<Longrightarrow>
     fold (methodsVisitor T) ns s = s"
proof (induction ns arbitrary: s)
  case Nil
  show ?case by simp
next
  case (Cons n ns)
  have "methodsVisitor T n s = s"
    by (rule methodsVisitor_other) (use Cons.prems in auto)
  moreover have "fold (methodsVisitor T) ns s = s"
    by (rule Cons.IH) (use Cons.prems in auto)
  ultimately show ?case by simp
qed

lemma methodsVisitor_FuncDecl:
  "methodsVisitor T (DeclNode (FuncDecl r nm ty b)) (hv, hs) =
     (hv \<or> isMethod T ''Values'' (FuncDecl r nm ty b),
      hs \<or> isMethod T ''String'' (FuncDecl r nm ty b))"
proof (cases r)
  case None
  then show ?thesis by simp
next
  case (Some fs)
  show ?thesis
  proof (cases fs)
    case Nil
    then show ?thesis by (simp add: Some)
  next
    case (Cons f fs')
    then show ?thesis by (cases "field_type f") (auto simp: Some)
  qed
qed

lemma fold_methodsVisitor_decl:
  "fold (methodsVisitor T) (nodes_decl d) (hv, hs) =
     (hv \<or> isMethod T ''Values'' d, hs \<or> isMethod T ''String'' d)"
proof (cases d)
  case (GenD g)
  then show ?thesis
    by (simp add: fold_methodsVisitor_other no_FuncDecl_inside)
next
  case (FuncDecl r nm ty b)
  let ?rest = "(case r of None \<Rightarrow> [] | Some fs \<Rightarrow> nodes_fields fs) @
         nodes_fields (params ty) @
         (case results ty of None \<Rightarrow> [] | Some fs \<Rightarrow> nodes_fields fs) @
         (case b of None \<Rightarrow> [] | Some b \<Rightarrow> nodes_stmt (BlockStmt b))"
  have nf: "\<forall>r nm ty b. DeclNode (FuncDecl r nm ty b) \<notin> set ?rest"
    by (simp add: no_FuncDecl_inside no_FuncDecl_in_fields split: option.splits)
  have "nodes_decl d = DeclNode d # ?rest"
    by (simp add: FuncDecl)
  then have "fold (methodsVisitor T) (nodes_decl d) (hv, hs) =
      fold (methodsVisitor T) ?rest (methodsVisitor T (DeclNode d) (hv, hs))"
    by (simp only: fold_simps)
  also have "\<dots> = methodsVisitor T (DeclNode d) (hv, hs)"
    using nf by (rule fold_methodsVisitor_other)
  finally show ?thesis
    unfolding FuncDecl methodsVisitor_FuncDecl .
next
  case BadDecl
  then show ?thesis by simp
qed

lemma fold_methodsVisitor_decls:
  "fold (methodsVisitor T) (concat (map nodes_decl ds)) (hv, hs) =
     (hv \<or> (\<exists>d\<in>set ds. isMethod T ''Values'' d), hs \<or> (\<exists>d\<in>set ds. isMethod T ''String'' d))"
proof (induction ds arbitrary: hv hs)
  case Nil
  show ?case by simp
next
  case (Cons d ds)
  show ?case
    by (simp add: fold_methodsVisitor_decl Cons.IH)
qed

lemma checkExistingMethods_iff:
  "checkExistingMethods file T =
     (\<exists>d\<in>set (Decls file). isMethod T ''Values'' d, \<exists>d\<in>set (Decls file). isMethod T ''String'' d)"
  by (simp add: checkExistingMethods_def Inspect_is_fold preorder_def fold_methodsVisitor_decls)

lemma replaceDecls_length [simp]: "length (replaceDecls ds T M new) = length ds"
  by (induction ds) simp_all

lemma replaceDecls_no_match:
  "\<forall>d\<in>set ds. \<not> isMethod T M d \<Longrightarrow> replaceDecls ds T M new = ds"
  by (induction ds) simp_all

lemma replaceDecls_sameSlot:
  "isMethod T M new \<Longrightarrow> list_all2 sameSlot ds (replaceDecls ds T M new)"
proof (induction ds)
  case Nil
  show ?case by simp
next
  case (Cons d ds)
  have refl: "list_all2 sameSlot ds ds"
    by (simp add: list_all2_refl sameSlot_def)
  have here: "sameSlot d d"
    by (simp add: sameSlot_def)
  have there: "sameSlot d new" if "isMethod T M d"
    using that Cons.prems by (simp add: sameSlot_def isMethod_methodKey)
  show ?case
    using Cons refl here there by simp
qed

lemma replaceDecls_append:
  "replaceDecls (xs @ ys) T M new =
     (if \<exists>d\<in>set xs. isMethod T M d then replaceDecls xs T M new @ ys
      else xs @ replaceDecls ys T M new)"
  by (induction xs) auto

section \<open>The loops of Generate\<close>

lemma sameSlot_refl [simp]: "sameSlot d d"
  by (simp add: sameSlot_def)

lemma sameSlot_trans: "sameSlot a b \<Longrightarrow> sameSlot b c \<Longrightarrow> sameSlot a c"
  by (auto simp: sameSlot_def)

lemma sameSlot_key: "sameSlot a b \<Longrightarrow> methodKey b = methodKey a"
  by (auto simp: sameSlot_def)

lemma sameSlot_no_key: "sameSlot a b \<Longrightarrow> methodKey a = None \<Longrightarrow> b = a"
  by (auto simp: sameSlot_def)

lemma sameSlots_refl [simp]: "list_all2 sameSlot ds ds"
  by (simp add: list_all2_refl)

lemma sameSlots_trans:
  "list_all2 sameSlot xs ys \<Longrightarrow> list_all2 sameSlot ys zs \<Longrightarrow> list_all2 sameSlot xs zs"
  by (rule list_all2_trans [of sameSlot sameSlot sameSlot]) (auto intro: sameSlot_trans)

lemma sameSlots_keys:
  "list_all2 sameSlot xs ys \<Longrightarrow> map methodKey ys = map methodKey xs"
  by (induction rule: list_all2_induct) (simp_all add: sameSlot_key)

lemma has_method_keys:
  "(\<exists>d\<in>set ds. isMethod T M d) \<longleftrightarrow> Some (T, M) \<in> set (map methodKey ds)"
  by (force simp: isMethod_methodKey image_iff)

lemma sameSlots_has_method:
  "list_all2 sameSlot xs ys \<Longrightarrow>
     (\<exists>d\<in>set ys. isMethod T M d) \<longleftrightarrow> (\<exists>d\<in>set xs. isMethod T M d)"
  unfolding has_method_keys by (simp add: sameSlots_keys)

lemma isMethod_generateValues [simp]:
  "isMethod T M (generateValuesMethodAST T' vals) \<longleftrightarrow> T = T' \<and> M = ''Values''"
  by (auto simp: generateValuesMethodAST_def)

lemma isMethod_generateString [simp]:
  "isMethod T M (generateStringMethodAST T') \<longleftrightarrow> T = T' \<and> M = ''String''"
  by (auto simp: generateStringMethodAST_def)

lemma println_simps [simp]:
  "astFile (println msg st) = astFile st"
  "newDecls (println msg st) = newDecls st"
  "printed (println msg st) = printed st @ [msg]"
  by (simp_all add: println_def)

lemma replaceMethod_simps [simp]:
  "Decls (replaceMethod file T M new) = replaceDecls (Decls file) T M new"
  "PkgName (replaceMethod file T M new) = PkgName file"
  by (simp_all add: replaceMethod_def)

lemma mergeMethod_astFile:
  "astFile (mergeMethod has T M new st) =
     (if has then replaceMethod (astFile st) T M new else astFile st)"
  by (simp add: mergeMethod_def Let_def)

lemma mergeMethod_newDecls:
  "newDecls (mergeMethod has T M new st) =
     (if has then newDecls st else newDecls st @ [new])"
  by (simp add: mergeMethod_def Let_def)

text \<open>What one pass over a marked type does to the file and to \<open>newDecls\<close>.\<close>

lemma enumTypeStep_Decls:
  "Decls (astFile (enumTypeStep T st)) =
     replaceDecls
       (replaceDecls (Decls (astFile st)) T ''Values''
          (generateValuesMethodAST T (namesInOrder (astFile st) T)))
       T ''String'' (generateStringMethodAST T)"
proof -
  let ?ds = "Decls (astFile st)"
  have v: "\<not> (\<exists>d\<in>set ?ds. isMethod T ''Values'' d) \<Longrightarrow> replaceDecls ?ds T ''Values'' new = ?ds"
    for new by (simp add: replaceDecls_no_match)
  have s: "\<not> (\<exists>d\<in>set ?ds. isMethod T ''String'' d) \<Longrightarrow>
      replaceDecls (replaceDecls ?ds T ''Values'' new) T ''String'' new' =
      replaceDecls ?ds T ''Values'' new" if "isMethod T ''Values'' new" for new new'
  proof -
    assume n: "\<not> (\<exists>d\<in>set ?ds. isMethod T ''String'' d)"
    have "list_all2 sameSlot ?ds (replaceDecls ?ds T ''Values'' new)"
      using that by (rule replaceDecls_sameSlot)
    from sameSlots_has_method [OF this] n
    have "\<forall>d\<in>set (replaceDecls ?ds T ''Values'' new). \<not> isMethod T ''String'' d"
      by blast
    then show ?thesis by (rule replaceDecls_no_match)
  qed
  show ?thesis
    by (auto simp: enumTypeStep_def Let_def checkExistingMethods_iff mergeMethod_astFile
        collectEnumValues_namesInOrder v s)
qed

lemma enumTypeStep_PkgName [simp]:
  "PkgName (astFile (enumTypeStep T st)) = PkgName (astFile st)"
  by (simp add: enumTypeStep_def Let_def checkExistingMethods_iff mergeMethod_astFile)

lemma enumTypeStep_newDecls:
  "newDecls (enumTypeStep T st) =
     newDecls st @
     (if \<exists>d\<in>set (Decls (astFile st)). isMethod T ''Values'' d then []
      else [generateValuesMethodAST T (namesInOrder (astFile st) T)]) @
     (if \<exists>d\<in>set (Decls (astFile st)). isMethod T ''String'' d then []
      else [generateStringMethodAST T])"
  by (simp add: enumTypeStep_def Let_def checkExistingMethods_iff mergeMethod_newDecls
      collectEnumValues_namesInOrder)

lemma enumTypeStep_sameSlot:
  "list_all2 sameSlot (Decls (astFile st)) (Decls (astFile (enumTypeStep T st)))"
  unfolding enumTypeStep_Decls
  by (rule sameSlots_trans [OF replaceDecls_sameSlot replaceDecls_sameSlot]) simp_all

lemma specsLoop_fold: "specsLoop specs st = fold enumTypeStep (typeNames specs) st"
  by (induction specs st rule: specsLoop.induct) simp_all

lemma commentsLoop_fold:
  "commentsLoop doc specs st =
     fold enumTypeStep
       (concat (map (\<lambda>comment. if Contains comment ''@enumGenerated'' then typeNames specs else []) doc))
       st"
  by (induction doc specs st rule: commentsLoop.induct) (simp_all add: specsLoop_fold)

lemma declStep_fold:
  "declStep d st = fold enumTypeStep (markedTypes d) (st\<lparr>newDecls := newDecls st @ [d]\<rparr>)"
  by (induction d st rule: declStep.induct) (simp_all add: commentsLoop_fold)

lemma types_sameSlot:
  "list_all2 sameSlot (Decls (astFile st)) (Decls (astFile (fold enumTypeStep Ts st)))"
proof (induction Ts arbitrary: st)
  case Nil
  show ?case by simp
next
  case (Cons T Ts)
  show ?case
    using sameSlots_trans [OF enumTypeStep_sameSlot Cons.IH] by simp
qed

lemma types_PkgName [simp]:
  "PkgName (astFile (fold enumTypeStep Ts st)) = PkgName (astFile st)"
  by (induction Ts arbitrary: st) simp_all

lemma types_newDecls_grow:
  "\<exists>B. newDecls (fold enumTypeStep Ts st) = newDecls st @ B \<and>
       (\<forall>d\<in>set B. methodKey d \<noteq> None)"
proof (induction Ts arbitrary: st)
  case Nil
  show ?case by simp
next
  case (Cons T Ts)
  obtain B where B: "newDecls (fold enumTypeStep Ts (enumTypeStep T st)) =
      newDecls (enumTypeStep T st) @ B" "\<forall>d\<in>set B. methodKey d \<noteq> None"
    using Cons.IH by blast
  obtain B0 where B0: "newDecls (enumTypeStep T st) = newDecls st @ B0"
      "\<forall>d\<in>set B0. methodKey d \<noteq> None"
    by (simp add: enumTypeStep_newDecls generateValuesMethodAST_def generateStringMethodAST_def)
  have "newDecls (fold enumTypeStep (T # Ts) st) = newDecls st @ (B0 @ B)"
    using B B0 by simp
  moreover have "\<forall>d\<in>set (B0 @ B). methodKey d \<noteq> None"
    using B B0 by auto
  ultimately show ?case by blast
qed

text \<open>
  A missing method of a processed type is appended: the synthesized declaration is
  among those added to \<open>newDecls\<close>.
\<close>

lemma types_append_missing:
  assumes "T \<in> set Ts" and "\<forall>d\<in>set (Decls (astFile st)). \<not> isMethod T M d"
    and "M = ''Values'' \<or> M = ''String''"
  shows "\<exists>B. newDecls (fold enumTypeStep Ts st) = newDecls st @ B \<and>
       (\<forall>d\<in>set B. methodKey d \<noteq> None) \<and>
       (M = ''Values'' \<longrightarrow> (\<exists>vals. generateValuesMethodAST T vals \<in> set B)) \<and>
       (M = ''String'' \<longrightarrow> generateStringMethodAST T \<in> set B)"
  using assms(1,2)
proof (induction Ts arbitrary: st)
  case Nil
  then show ?case by simp
next
  case (Cons T' Ts)
  let ?st' = "enumTypeStep T' st"
  obtain B0 where B0: "newDecls ?st' = newDecls st @ B0"
      "\<forall>d\<in>set B0. methodKey d \<noteq> None"
    by (simp add: enumTypeStep_newDecls generateValuesMethodAST_def generateStringMethodAST_def)
  have keep: "\<forall>d\<in>set (Decls (astFile ?st')). \<not> isMethod T M d"
    using sameSlots_has_method [OF enumTypeStep_sameSlot, of T' st T M] Cons.prems(2) by blast
  show ?case
  proof (cases "T' = T")
    case True
    obtain B where B: "newDecls (fold enumTypeStep Ts ?st') = newDecls ?st' @ B"
        "\<forall>d\<in>set B. methodKey d \<noteq> None"
      using types_newDecls_grow by blast
    have here: "(M = ''Values'' \<longrightarrow> (\<exists>vals. generateValuesMethodAST T vals \<in> set B0)) \<and>
       (M = ''String'' \<longrightarrow> generateStringMethodAST T \<in> set B0)"
      using B0(1) Cons.prems(2) True by (auto simp: enumTypeStep_newDecls)
    have "newDecls (fold enumTypeStep (T' # Ts) st) = newDecls st @ (B0 @ B)"
      using B B0 by simp
    moreover have "\<forall>d\<in>set (B0 @ B). methodKey d \<noteq> None"
      using B B0 by auto
    moreover have "(M = ''Values'' \<longrightarrow> (\<exists>vals. generateValuesMethodAST T vals \<in> set (B0 @ B))) \<and>
       (M = ''String'' \<longrightarrow> generateStringMethodAST T \<in> set (B0 @ B))"
      using here by auto
    ultimately show ?thesis by blast
  next
    case False
    with Cons.prems have "T \<in> set Ts" by simp
    from Cons.IH [OF this keep]
    obtain B where B: "newDecls (fold enumTypeStep Ts ?st') = newDecls ?st' @ B"
        "\<forall>d\<in>set B. methodKey d \<noteq> None"
        "(M = ''Values'' \<longrightarrow> (\<exists>vals. generateValuesMethodAST T vals \<in> set B)) \<and>
         (M = ''String'' \<longrightarrow> generateStringMethodAST T \<in> set B)"
      by blast
    have "newDecls (fold enumTypeStep (T' # Ts) st) = newDecls st @ (B0 @ B)"
      using B B0 by simp
    moreover have "\<forall>d\<in>set (B0 @ B). methodKey d \<noteq> None"
      using B B0 by auto
    moreover have "(M = ''Values'' \<longrightarrow> (\<exists>vals. generateValuesMethodAST T vals \<in> set (B0 @ B))) \<and>
       (M = ''String'' \<longrightarrow> generateStringMethodAST T \<in> set (B0 @ B))"
      using B(3) by auto
    ultimately show ?thesis by blast
  qed
qed

declare declsLoop.simps [simp del]

lemma declStep_sameSlot:
  "list_all2 sameSlot (Decls (astFile st)) (Decls (astFile (declStep d st)))"
  using types_sameSlot [of "st\<lparr>newDecls := newDecls st @ [d]\<rparr>" "markedTypes d"]
  by (simp add: declStep_fold)

lemma declStep_PkgName [simp]: "PkgName (astFile (declStep d st)) = PkgName (astFile st)"
  by (simp add: declStep_fold)

lemma declStep_newDecls_grow:
  "\<exists>B. newDecls (declStep d st) = newDecls st @ d # B \<and> (\<forall>d\<in>set B. methodKey d \<noteq> None)"
  using types_newDecls_grow [of "markedTypes d" "st\<lparr>newDecls := newDecls st @ [d]\<rparr>"]
  by (simp add: declStep_fold)

lemma declsLoop_sameSlot:
  "list_all2 sameSlot (Decls (astFile st)) (Decls (astFile (declsLoop n i st)))"
proof (induction n i st rule: declsLoop.induct)
  case (1 n i st)
  show ?case
  proof (cases "i < n")
    case True
    from sameSlots_trans [OF declStep_sameSlot 1 [OF True]] True
    show ?thesis by (subst declsLoop.simps) simp
  next
    case False
    then show ?thesis by (subst declsLoop.simps) simp
  qed
qed

lemma declsLoop_PkgName [simp]:
  "PkgName (astFile (declsLoop n i st)) = PkgName (astFile st)"
proof (induction n i st rule: declsLoop.induct)
  case (1 n i st)
  show ?case
  proof (cases "i < n")
    case True
    with 1 [OF True] show ?thesis by (subst declsLoop.simps) simp
  next
    case False
    then show ?thesis by (subst declsLoop.simps) simp
  qed
qed

lemma declsLoop_split:
  "i \<le> j \<Longrightarrow> j \<le> n \<Longrightarrow> declsLoop n i st = declsLoop n j (declsLoop j i st)"
proof (induction j i st rule: declsLoop.induct)
  case (1 j i st)
  show ?case
  proof (cases "i < j")
    case True
    then have "i < n" using 1 by simp
    have "declsLoop n i st = declsLoop n (Suc i) (declStep (Decls (astFile st) ! i) st)"
      using \<open>i < n\<close> by (subst declsLoop.simps) simp
    also have "\<dots> = declsLoop n j (declsLoop j (Suc i) (declStep (Decls (astFile st) ! i) st))"
      using 1 True by simp
    also have "declsLoop j (Suc i) (declStep (Decls (astFile st) ! i) st) = declsLoop j i st"
      using True by (subst (2) declsLoop.simps) simp
    finally show ?thesis .
  next
    case False
    with 1 have "i = j" by simp
    then show ?thesis by (subst (3) declsLoop.simps) simp
  qed
qed

lemma list_emb_sameSlot_pre:
  "list_emb sameSlot ys zs \<Longrightarrow> list_all2 sameSlot xs ys \<Longrightarrow> list_emb sameSlot xs zs"
proof (induction arbitrary: xs rule: list_emb.induct)
  case (list_emb_Nil ys)
  then show ?case by simp
next
  case (list_emb_Cons us ys y)
  then show ?case by (auto intro: list_emb.intros)
next
  case (list_emb_Cons2 y z ys zs)
  from list_emb_Cons2.prems obtain x xs' where xs: "xs = x # xs'" "sameSlot x y"
      "list_all2 sameSlot xs' ys"
    by (auto simp: list_all2_Cons2)
  have "sameSlot x z" using xs(2) list_emb_Cons2.hyps(1) by (rule sameSlot_trans)
  moreover have "list_emb sameSlot xs' zs" using xs(3) by (rule list_emb_Cons2.IH)
  ultimately show ?case by (auto simp: xs(1) intro: list_emb.intros)
qed

lemma list_emb_member:
  "list_emb P xs ys \<Longrightarrow> x \<in> set xs \<Longrightarrow> \<exists>y\<in>set ys. P x y"
  by (induction rule: list_emb.induct) auto

text \<open>
  The loop only appends to \<open>newDecls\<close>, and what it appends from index \<open>i\<close> on holds
  the declarations of the slots \<open>i, ..., n - 1\<close> in their order.
\<close>

lemma declsLoop_newDecls_grow:
  "n \<le> length (Decls (astFile st)) \<Longrightarrow>
     \<exists>C. newDecls (declsLoop n i st) = newDecls st @ C \<and>
         list_emb sameSlot (drop i (take n (Decls (astFile st)))) C"
proof (induction n i st rule: declsLoop.induct)
  case (1 n i st)
  let ?fd = "Decls (astFile st)"
  show ?case
  proof (cases "i < n")
    case False
    then show ?thesis by (subst declsLoop.simps) simp
  next
    case True
    let ?d = "?fd ! i"
    let ?st' = "declStep ?d st"
    let ?fd' = "Decls (astFile ?st')"
    have rel: "list_all2 sameSlot ?fd ?fd'" by (rule declStep_sameSlot)
    then have len: "length ?fd' = length ?fd" by (simp add: list_all2_lengthD)
    obtain B where B: "newDecls ?st' = newDecls st @ ?d # B"
      using declStep_newDecls_grow by blast
    from 1 (1) [OF True] 1 (2) len
    obtain C where C: "newDecls (declsLoop n (Suc i) ?st') = newDecls ?st' @ C"
        "list_emb sameSlot (drop (Suc i) (take n ?fd')) C"
      by auto
    have "list_all2 sameSlot (drop (Suc i) (take n ?fd)) (drop (Suc i) (take n ?fd'))"
      using rel by (intro list_all2_dropI list_all2_takeI)
    with C(2) have "list_emb sameSlot (drop (Suc i) (take n ?fd)) C"
      by (rule list_emb_sameSlot_pre)
    then have "list_emb sameSlot (drop (Suc i) (take n ?fd)) (B @ C)"
      by (rule list_emb_append2)
    then have "list_emb sameSlot (?d # drop (Suc i) (take n ?fd)) (?d # B @ C)"
      by simp
    moreover have "drop i (take n ?fd) = ?d # drop (Suc i) (take n ?fd)"
      using True 1 (2) by (simp add: Cons_nth_drop_Suc [symmetric])
    moreover have "newDecls (declsLoop n i st) = newDecls st @ (?d # B @ C)"
      using True B C(1) by (subst declsLoop.simps) simp
    ultimately show ?thesis by metis
  qed
qed

lemma typeNames_set: "T \<in> set (typeNames specs) \<longleftrightarrow> (\<exists>ty. TypeSpec T ty \<in> set specs)"
  by (induction specs rule: typeNames.induct) auto

lemma markedTypes_member:
  "c \<in> set doc \<Longrightarrow> Contains c ''@enumGenerated'' \<Longrightarrow> TypeSpec T ty \<in> set specs \<Longrightarrow>
     T \<in> set (markedTypes (GenD (GenDecl k (Some doc) specs)))"
  by (auto simp: typeNames_set)

lemma generated_Decls: "Decls (generated file) = newDecls (mergeState file)"
  by (simp add: generated_def)

text \<open>
  Where the method synthesized for a marked type ends up when the file has no such method:
  among the declarations appended right after the declaration that holds the type.
\<close>

lemma appended_after_marked_declaration:
  assumes decls: "Decls file = pre @ GenD (GenDecl k (Some doc) specs) # post"
    and marked: "c \<in> set doc" "Contains c ''@enumGenerated''" "TypeSpec T ty \<in> set specs"
    and M: "M = ''Values'' \<or> M = ''String''"
    and missing: "\<forall>d\<in>set (Decls file). \<not> isMethod T M d"
  shows "\<exists>A B C. Decls (generated file) = A @ GenD (GenDecl k (Some doc) specs) # B @ C \<and>
      list_emb sameSlot pre A \<and> list_emb sameSlot post C \<and>
      (\<forall>d\<in>set B. methodKey d \<noteq> None) \<and>
      (M = ''Values'' \<longrightarrow> (\<exists>vals. generateValuesMethodAST T vals \<in> set B)) \<and>
      (M = ''String'' \<longrightarrow> generateStringMethodAST T \<in> set B)"
proof -
  let ?g = "GenD (GenDecl k (Some doc) specs)"
  let ?n = "length (Decls file)"
  let ?j = "length pre"
  let ?st0 = "initState file"
  let ?stj = "declsLoop ?j 0 ?st0"
  let ?fdj = "Decls (astFile ?stj)"
  have fd0: "Decls (astFile ?st0) = Decls file" by (simp add: initState_def)
  have j: "?j < ?n" by (simp add: decls)
  have relj: "list_all2 sameSlot (Decls file) ?fdj"
    using declsLoop_sameSlot [of ?st0 ?j 0] by (simp add: fd0)
  then have lenj: "length ?fdj = ?n" by (simp add: list_all2_lengthD)
  obtain A where A: "newDecls ?stj = A" "list_emb sameSlot pre A"
    using declsLoop_newDecls_grow [of ?j ?st0 0] by (auto simp: fd0 decls initState_def)
  have "sameSlot (Decls file ! ?j) (?fdj ! ?j)"
    using relj j by (simp add: list_all2_nthD)
  then have at_j: "?fdj ! ?j = ?g"
    by (auto simp: decls dest: sameSlot_no_key)
  let ?st' = "declStep ?g ?stj"
  have T: "T \<in> set (markedTypes ?g)"
    using marked by (rule markedTypes_member)
  have "\<forall>d\<in>set ?fdj. \<not> isMethod T M d"
    using sameSlots_has_method [OF relj, of T M] missing by blast
  from types_append_missing [OF T _ M, of "?stj\<lparr>newDecls := newDecls ?stj @ [?g]\<rparr>"] this
  obtain B where B: "newDecls ?st' = A @ ?g # B" "\<forall>d\<in>set B. methodKey d \<noteq> None"
      "M = ''Values'' \<longrightarrow> (\<exists>vals. generateValuesMethodAST T vals \<in> set B)"
      "M = ''String'' \<longrightarrow> generateStringMethodAST T \<in> set B"
    unfolding declStep_fold using A(1) by auto
  have rel': "list_all2 sameSlot (Decls file) (Decls (astFile ?st'))"
    using sameSlots_trans [OF relj declStep_sameSlot] .
  then have len': "?n \<le> length (Decls (astFile ?st'))" by (simp add: list_all2_lengthD)
  from declsLoop_newDecls_grow [OF len', of "Suc ?j"]
  obtain C where C: "newDecls (declsLoop ?n (Suc ?j) ?st') = newDecls ?st' @ C"
      "list_emb sameSlot (drop (Suc ?j) (take ?n (Decls (astFile ?st')))) C"
    by blast
  have "list_all2 sameSlot (drop (Suc ?j) (take ?n (Decls file)))
      (drop (Suc ?j) (take ?n (Decls (astFile ?st'))))"
    using rel' by (intro list_all2_dropI list_all2_takeI)
  with C(2) have "list_emb sameSlot (drop (Suc ?j) (take ?n (Decls file))) C"
    by (rule list_emb_sameSlot_pre)
  then have post: "list_emb sameSlot post C" by (simp add: decls)
  have "mergeState file = declsLoop ?n ?j ?stj"
    unfolding mergeState_def using j by (intro declsLoop_split) simp_all
  also have "\<dots> = declsLoop ?n (Suc ?j) ?st'"
    using j by (subst declsLoop.simps) (simp add: at_j)
  finally have "Decls (generated file) = A @ ?g # B @ C"
    using B(1) C(1) by (simp add: generated_Decls)
  with A(2) post B(2,3,4) show ?thesis by blast
qed

section \<open>Merging the synthesized methods\<close>

text \<open>
  C1 (the code differs). A marked type is processed once for each line of its
  documentation that contains the marker, and detection looks at \<open>file.Decls\<close>, where
  appended methods never arrive: on \<open>twoMarkersFile\<close>, whose comment names the marker on
  two lines, the written file has two \<open>Values\<close> and two \<open>String\<close> methods for \<open>T\<close>.
\<close>

theorem marker_on_two_lines_duplicates_methods:
  "Decls (generated twoMarkersFile) =
     [typeDecl [marker, ''// see the @enumGenerated generator''] ''T'',
      generateValuesMethodAST ''T'' [''a''], generateStringMethodAST ''T'',
      generateValuesMethodAST ''T'' [''a''], generateStringMethodAST ''T'',
      valueDecl CONST_tok [''a''] ''T''] \<and>
   length (filter (isMethod ''T'' ''Values'') (Decls (generated twoMarkersFile))) = 2 \<and>
   length (filter (isMethod ''T'' ''String'') (Decls (generated twoMarkersFile))) = 2"
  by code_simp

text \<open>
  C2 (the code differs). \<open>replaceMethod\<close> overwrites a slot of \<open>file.Decls\<close>, but a
  declaration that precedes the marked type was copied to \<open>newDecls\<close> before, and
  \<open>newDecls\<close> is what is written: on \<open>methodFirstFile\<close> the only \<open>Values\<close> method of the
  output is the old one, with its old body.
\<close>

theorem method_before_type_keeps_old_body:
  "Decls (generated methodFirstFile) =
     [oldValuesMethod, typeDecl [marker] ''T'', generateStringMethodAST ''T'',
      valueDecl CONST_tok [''a''] ''T''] \<and>
   filter (isMethod ''T'' ''Values'') (Decls (generated methodFirstFile)) = [oldValuesMethod] \<and>
   Body oldValuesMethod = Some [ReturnStmt [Ident ''nil'']] \<and>
   collectEnumValues methodFirstFile ''T'' = [''a'']"
  by code_simp





text \<open>
  C6 (as stated, refuted). On \<open>typeThenConstFile\<close> the synthesized \<open>Values\<close> and \<open>String\<close>
  methods stand before the constant declaration, which was there before the run.
\<close>

theorem appended_method_is_last_counterexample:
  "Decls typeThenConstFile = [typeDecl [marker] ''T'', valueDecl CONST_tok [''a'', ''b''] ''T''] \<and>
   Decls (generated typeThenConstFile) =
     [typeDecl [marker] ''T'', generateValuesMethodAST ''T'' [''a'', ''b''],
      generateStringMethodAST ''T'', valueDecl CONST_tok [''a'', ''b''] ''T'']"
  by code_simp

text \<open>
  C6 (amended). For a marked type \<open>T\<close> and a method \<open>M\<close> (\<open>Values\<close> or \<open>String\<close>) that no
  declaration of the file provides, the synthesized declaration is appended to the
  output under construction while the declaration holding \<open>T\<close> is processed: in the
  output it stands in the block \<open>B\<close> that directly follows that declaration, after every
  declaration that precedes the marked one (each in its slot, in \<open>A\<close>) and before every
  declaration that follows it (each in its slot, in \<open>C\<close>).
\<close>

theorem appended_method_follows_marked_declaration:
  assumes "Decls file = pre @ GenD (GenDecl k (Some doc) specs) # post"
    and "c \<in> set doc" and "Contains c ''@enumGenerated''" and "TypeSpec T ty \<in> set specs"
    and "M = ''Values'' \<or> M = ''String''"
    and "\<forall>d\<in>set (Decls file). \<not> isMethod T M d"
  shows "\<exists>A B C. Decls (generated file) = A @ GenD (GenDecl k (Some doc) specs) # B @ C \<and>
      list_emb sameSlot pre A \<and> list_emb sameSlot post C \<and>
      (\<forall>d\<in>set B. methodKey d \<noteq> None) \<and>
      (M = ''Values'' \<longrightarrow> (\<exists>vals. generateValuesMethodAST T vals \<in> set B)) \<and>
      (M = ''String'' \<longrightarrow> generateStringMethodAST T \<in> set B)"
  using assms by (rule appended_after_marked_declaration)

theorem appended_method_follows_marked_declaration_witness:
  "\<exists>A B C. Decls (generated typeThenConstFile) =
      A @ GenD (GenDecl TYPE_tok (Some [marker]) [TypeSpec ''T'' (Ident ''int'')]) # B @ C \<and>
      list_emb sameSlot [] A \<and>
      list_emb sameSlot [valueDecl CONST_tok [''a'', ''b''] ''T''] C \<and>
      (\<forall>d\<in>set B. methodKey d \<noteq> None) \<and>
      (''Values'' = ''Values'' \<longrightarrow> (\<exists>vals. generateValuesMethodAST ''T'' vals \<in> set B)) \<and>
      (''Values'' = ''String'' \<longrightarrow> generateStringMethodAST ''T'' \<in> set B)"
proof (rule appended_method_follows_marked_declaration)
  show "Decls typeThenConstFile =
      [] @ GenD (GenDecl TYPE_tok (Some [marker]) [TypeSpec ''T'' (Ident ''int'')]) #
      [valueDecl CONST_tok [''a'', ''b''] ''T'']"
    by (simp add: typeThenConstFile_def goFile_def typeDecl_def)
  show "marker \<in> set [marker]" by simp
  show "Contains marker ''@enumGenerated''" by (simp add: marker_def)
  show "TypeSpec ''T'' (Ident ''int'') \<in> set [TypeSpec ''T'' (Ident ''int'')]" by simp
  show "''Values'' = ''Values'' \<or> ''Values'' = ''String''" by simp
  show "\<forall>d\<in>set (Decls typeThenConstFile). \<not> isMethod ''T'' ''Values'' d"
    by (simp add: typeThenConstFile_def goFile_def typeDecl_def valueDecl_def)
qed

lemma isMethod_shape:
  assumes "isMethod T M d"
  obtains ns rs fty body where "d = FuncDecl (Some (Field ns (Ident T) # rs)) M fty body"
proof (cases d)
  case (FuncDecl recv name fty body)
  with assms obtain r rs where recv: "recv = Some (r # rs)"
    by (cases recv; cases "the recv") auto
  obtain ns t where r: "r = Field ns t" by (cases r)
  from assms have "t = Ident T" "name = M"
    by (auto simp: FuncDecl recv r split: expr.splits)
  with that FuncDecl recv r show ?thesis by blast
qed (use assms in simp_all)

text \<open>
  C9. Detection and replacement match a receiver type that is the bare identifier \<open>T\<close>
  only. Let \<open>T\<close> be a marked type, \<open>p\<close> a method \<open>M\<close> (\<open>Values\<close> or \<open>String\<close>) of the file
  with the pointer receiver \<open>*T\<close>, and let no declaration of the file have the shape of
  a method \<open>M\<close> whose first receiver type is the identifier \<open>T\<close>. Then \<open>p\<close> does not
  match, detection reports no method, replacement changes nothing, \<open>p\<close> is in the
  output as it was, and the output holds a synthesized method \<open>M\<close> with the value
  receiver \<open>T\<close>, which the file did not have.
\<close>

theorem pointer_receiver_method_is_not_matched:
  assumes "GenD (GenDecl k (Some doc) specs) \<in> set (Decls file)"
    and "c \<in> set doc" and "Contains c ''@enumGenerated''" and "TypeSpec T ty \<in> set specs"
    and "M = ''Values'' \<or> M = ''String''"
    and "p = FuncDecl (Some (Field ns (StarExpr (Ident T)) # rs)) M fty body"
    and "p \<in> set (Decls file)"
    and "\<forall>d\<in>set (Decls file). \<forall>ns' rs' fty' body'.
           d \<noteq> FuncDecl (Some (Field ns' (Ident T) # rs')) M fty' body'"
  shows "\<not> isMethod T M p \<and>
     (M = ''Values'' \<longrightarrow> \<not> fst (checkExistingMethods file T)) \<and>
     (M = ''String'' \<longrightarrow> \<not> snd (checkExistingMethods file T)) \<and>
     replaceMethod file T M new = file \<and>
     p \<in> set (Decls (generated file)) \<and>
     (\<exists>d\<in>set (Decls (generated file)). d \<notin> set (Decls file) \<and> isMethod T M d \<and>
        ((\<exists>vals. d = generateValuesMethodAST T vals) \<or> d = generateStringMethodAST T))"
proof -
  let ?g = "GenD (GenDecl k (Some doc) specs)"
  have np: "\<not> isMethod T M p" and kp: "methodKey p = None"
    by (simp_all add: assms(6))
  have none: "\<forall>d\<in>set (Decls file). \<not> isMethod T M d"
  proof
    fix d assume d: "d \<in> set (Decls file)"
    show "\<not> isMethod T M d"
    proof
      assume "isMethod T M d"
      then obtain ns' rs' fty' body' where
        "d = FuncDecl (Some (Field ns' (Ident T) # rs')) M fty' body'"
        by (rule isMethod_shape)
      with assms(8) d show False by blast
    qed
  qed
  have det: "(M = ''Values'' \<longrightarrow> \<not> fst (checkExistingMethods file T)) \<and>
     (M = ''String'' \<longrightarrow> \<not> snd (checkExistingMethods file T))"
    using none by (auto simp: checkExistingMethods_iff)
  have rep: "replaceMethod file T M new = file"
    using none by (simp add: replaceMethod_def replaceDecls_no_match)
  from assms(1) obtain pre post where split: "Decls file = pre @ ?g # post"
    by (auto simp: in_set_conv_decomp)
  from appended_after_marked_declaration [OF split assms(2,3,4,5) none]
  obtain A B C where out: "Decls (generated file) = A @ ?g # B @ C"
      "list_emb sameSlot pre A" "list_emb sameSlot post C"
      "M = ''Values'' \<longrightarrow> (\<exists>vals. generateValuesMethodAST T vals \<in> set B)"
      "M = ''String'' \<longrightarrow> generateStringMethodAST T \<in> set B"
    by blast
  have "p \<in> set pre \<or> p \<in> set post"
    using assms(7) split assms(6) by auto
  then have "\<exists>p'\<in>set A \<union> set C. sameSlot p p'"
    using list_emb_member [OF out(2), of p] list_emb_member [OF out(3), of p] by blast
  then have "p \<in> set A \<union> set C"
    using kp by (auto dest: sameSlot_no_key)
  then have kept: "p \<in> set (Decls (generated file))"
    by (auto simp: out(1))
  have "\<exists>d\<in>set B. isMethod T M d \<and>
      ((\<exists>vals. d = generateValuesMethodAST T vals) \<or> d = generateStringMethodAST T)"
  proof (cases "M = ''Values''")
    case True
    with out(4) obtain vals where v: "generateValuesMethodAST T vals \<in> set B" by blast
    have "isMethod T M (generateValuesMethodAST T vals)"
      unfolding isMethod_generateValues using True by simp
    with v show ?thesis by blast
  next
    case False
    with assms(5) have S: "M = ''String''" by blast
    with out(5) have v: "generateStringMethodAST T \<in> set B" by blast
    have "isMethod T M (generateStringMethodAST T)"
      unfolding isMethod_generateString using S by simp
    with v show ?thesis by blast
  qed
  then obtain d where d: "d \<in> set B" "isMethod T M d"
      "(\<exists>vals. d = generateValuesMethodAST T vals) \<or> d = generateStringMethodAST T"
    by blast
  have "d \<notin> set (Decls file)" using d(2) none by blast
  moreover have "d \<in> set (Decls (generated file))" using d(1) by (simp add: out(1))
  ultimately show ?thesis
    using np det rep kept d(2,3) by blast
qed

theorem pointer_receiver_method_is_not_matched_witness:
  "pointerValuesMethod \<in> set (Decls (generated pointerFile)) \<and>
   \<not> fst (checkExistingMethods pointerFile ''T'') \<and>
   (\<exists>d\<in>set (Decls (generated pointerFile)). d \<notin> set (Decls pointerFile) \<and>
      isMethod ''T'' ''Values'' d \<and>
      ((\<exists>vals. d = generateValuesMethodAST ''T'' vals) \<or> d = generateStringMethodAST ''T''))"
proof -
  have 1: "GenD (GenDecl TYPE_tok (Some [marker]) [TypeSpec ''T'' (Ident ''int'')])
      \<in> set (Decls pointerFile)"
    by (simp add: pointerFile_def goFile_def typeDecl_def)
  have 2: "marker \<in> set [marker]" by simp
  have 3: "Contains marker ''@enumGenerated''" by (simp add: marker_def)
  have 4: "TypeSpec ''T'' (Ident ''int'') \<in> set [TypeSpec ''T'' (Ident ''int'')]" by simp
  have 5: "''Values'' = ''Values'' \<or> ''Values'' = ''String''" by simp
  have 6: "pointerValuesMethod =
      FuncDecl (Some (Field [''t''] (StarExpr (Ident ''T'')) # [])) ''Values''
        (FuncType [] (Some [Field [] (ArrayType (Ident ''T''))]))
        (Some [ReturnStmt [Ident ''nil'']])"
    by (simp add: pointerValuesMethod_def methodDecl_def)
  have 7: "pointerValuesMethod \<in> set (Decls pointerFile)"
    by (simp add: pointerFile_def goFile_def)
  have 8: "\<forall>d\<in>set (Decls pointerFile). \<forall>ns' rs' fty' body'.
      d \<noteq> FuncDecl (Some (Field ns' (Ident ''T'') # rs')) ''Values'' fty' body'"
    by (simp add: pointerFile_def goFile_def typeDecl_def valueDecl_def pointerValuesMethod_def
        methodDecl_def)
  from pointer_receiver_method_is_not_matched [OF 1 2 3 4 5 6 7 8]
  show ?thesis by simp
qed

section \<open>A second run\<close>

text \<open>
  C4 (the code differs). A file is identified with its tree: the second run parses what
  the first run printed. On \<open>localConstFile\<close> the \<open>Values\<close> method declares the constant
  \<open>a\<close> of type \<open>T\<close> in its body. The first run collects \<open>a\<close> there and replaces the
  method, so the declaration of \<open>a\<close> is gone from what it writes; the second run
  collects nothing and writes a \<open>Values\<close> method that returns the empty literal.
\<close>

theorem second_run_writes_other_values:
  "Decls (generated localConstFile) =
     [typeDecl [marker] ''T'', generateStringMethodAST ''T'',
      generateValuesMethodAST ''T'' [''a'']] \<and>
   Decls (generated (generated localConstFile)) =
     [typeDecl [marker] ''T'', generateStringMethodAST ''T'',
      generateValuesMethodAST ''T'' []]"
  by code_simp

end
